theory Spec2Isabelle
  imports Main
begin

section \<open>The HAR cleaner of scripts/clean\_har.py\<close>

text \<open>
  The script reads a JSON document from a file, walks \<^verbatim>\<open>log.entries\<close>, keeps the
  \<^verbatim>\<open>request.url\<close> of some entries, and overwrites the same file with the list of
  kept values. The embedding follows the script line by line: Python values loaded
  by \<^verbatim>\<open>json.load\<close> are a datatype, every exception the interpreter can raise on such
  a value is a constructor of \<open>error\<close>, the \<^verbatim>\<open>for\<close> loop is a recursion over the
  entries with the accumulator \<^verbatim>\<open>cleaned_entries\<close>, and the file system is a map from
  paths to file contents together with the list of \<^verbatim>\<open>open\<close> calls made so far.
\<close>

subsection \<open>Values and exceptions\<close>

text \<open>
  What \<^verbatim>\<open>json.load\<close> returns: \<^verbatim>\<open>None\<close>, \<^verbatim>\<open>bool\<close>, \<^verbatim>\<open>int\<close>, \<^verbatim>\<open>float\<close>,
  \<^verbatim>\<open>str\<close>, \<^verbatim>\<open>list\<close> and \<^verbatim>\<open>dict\<close> with string keys. A \<^verbatim>\<open>dict\<close> is an association
  list in insertion order, looked up with \<open>map_of\<close>. The script never inspects a
  number, so a float is kept as a mantissa and an exponent only to tell it from an
  \<^verbatim>\<open>int\<close>. Strings are byte strings (the UTF-8 encoding of the Python string); the
  three literals of the script are ASCII, and the byte of \<^verbatim>\<open>/\<close> never occurs inside
  the encoding of another character, so splitting at it is the same on both views.
\<close>

datatype json =
    JNull
  | JBool bool
  | JInt int
  | JFloat int int
  | JStr string
  | JArr "json list"
  | JObj "(string \<times> json) list"

datatype error =
    FileNotFoundError
  | JSONDecodeError
  | AttributeError
  | TypeError
  | KeyError string
  | IndexError

text \<open>Sequencing of computations that may raise: the first exception wins.\<close>

definition and_then :: "error + 'a \<Rightarrow> ('a \<Rightarrow> error + 'b) \<Rightarrow> error + 'b" where
  "and_then m f = (case m of Inl e \<Rightarrow> Inl e | Inr x \<Rightarrow> f x)"

text \<open>
  \<^verbatim>\<open>d.get(key, default)\<close>: only a \<^verbatim>\<open>dict\<close> has the method \<^verbatim>\<open>get\<close>; on any other
  loaded value the attribute lookup raises \<^verbatim>\<open>AttributeError\<close>.
\<close>

fun dict_get :: "json \<Rightarrow> string \<Rightarrow> json \<Rightarrow> error + json" where
  "dict_get (JObj kvs) key dflt =
     Inr (case map_of kvs key of None \<Rightarrow> dflt | Some v \<Rightarrow> v)"
| "dict_get _ key dflt = Inl AttributeError"

text \<open>
  \<^verbatim>\<open>v[key]\<close> with a string key: a \<^verbatim>\<open>dict\<close> returns the value or raises
  \<^verbatim>\<open>KeyError\<close>; a \<^verbatim>\<open>list\<close> or \<^verbatim>\<open>str\<close> wants an integer index and the other values
  are not subscriptable, both a \<^verbatim>\<open>TypeError\<close>.
\<close>

fun subscript :: "json \<Rightarrow> string \<Rightarrow> error + json" where
  "subscript (JObj kvs) key =
     (case map_of kvs key of None \<Rightarrow> Inl (KeyError key) | Some v \<Rightarrow> Inr v)"
| "subscript _ key = Inl TypeError"

text \<open>
  \<^verbatim>\<open>for entry in v\<close>: a \<^verbatim>\<open>list\<close> yields its elements, a \<^verbatim>\<open>dict\<close> its keys, a
  \<^verbatim>\<open>str\<close> its one-character substrings; the other values are not iterable.
\<close>

fun iterate :: "json \<Rightarrow> error + json list" where
  "iterate (JArr xs) = Inr xs"
| "iterate (JObj kvs) = Inr (map (\<lambda>kv. JStr (fst kv)) kvs)"
| "iterate (JStr s) = Inr (map (\<lambda>c. JStr [c]) s)"
| "iterate _ = Inl TypeError"

text \<open>
  \<^verbatim>\<open>s.split(sep)\<close> for a one-character separator: the pieces between the
  occurrences of \<open>sep\<close>, never an empty list.
\<close>

fun py_split :: "char \<Rightarrow> string \<Rightarrow> string list" where
  "py_split sep [] = [[]]"
| "py_split sep (c # cs) =
     (if c = sep then [] # py_split sep cs
      else (case py_split sep cs of
              [] \<Rightarrow> [[c]]
            | w # ws \<Rightarrow> (c # w) # ws))"

text \<open>\<^verbatim>\<open>v.split('/')\<close>: only a \<^verbatim>\<open>str\<close> has the method.\<close>

fun split_slash :: "json \<Rightarrow> error + string list" where
  "split_slash (JStr s) = Inr (py_split CHR ''/'' s)"
| "split_slash _ = Inl AttributeError"

text \<open>\<^verbatim>\<open>xs[-1]\<close>: the last element, \<^verbatim>\<open>IndexError\<close> on the empty list.\<close>

fun last_item :: "'a list \<Rightarrow> error + 'a" where
  "last_item [] = Inl IndexError"
| "last_item xs = Inr (last xs)"

subsection \<open>The filtering pass (lines 14 to 22)\<close>

text \<open>\<^verbatim>\<open>entry['request'][key]\<close>.\<close>

definition request_field :: "json \<Rightarrow> string \<Rightarrow> error + json" where
  "request_field entry key = and_then (subscript entry ''request'') (\<lambda>r. subscript r key)"

text \<open>
  One pass of the loop body per entry. \<^verbatim>\<open>continue\<close> goes on with the accumulator
  unchanged, \<^verbatim>\<open>append\<close> adds at the end, an exception leaves the loop. Line 19
  evaluates \<^verbatim>\<open>entry['request']['method']\<close> a second time, as the script does.
\<close>

fun clean_loop :: "json list \<Rightarrow> json list \<Rightarrow> error + json list" where
  "clean_loop [] cleaned_entries = Inr cleaned_entries"
| "clean_loop (entry # rest) cleaned_entries =
     and_then (request_field entry ''method'') (\<lambda>m.
       if m \<noteq> JStr ''GET'' then clean_loop rest cleaned_entries
       else
         and_then (request_field entry ''method'') (\<lambda>m2.
         and_then (split_slash m2) (\<lambda>parts.
         and_then (last_item parts) (\<lambda>seg.
           if seg = ''favicon.ico'' then clean_loop rest cleaned_entries
           else
             and_then (request_field entry ''url'') (\<lambda>u.
               clean_loop rest (cleaned_entries @ [u]))))))"

text \<open>
  Lines 14 and 15: \<^verbatim>\<open>har_data.get('log', {}).get('entries', [])\<close>, then the loop
  from the empty accumulator.
\<close>

definition cleaned_entries_of :: "json \<Rightarrow> error + json list" where
  "cleaned_entries_of har_data =
     and_then (dict_get har_data ''log'' (JObj [])) (\<lambda>log.
     and_then (dict_get log ''entries'' (JArr [])) (\<lambda>entries.
     and_then (iterate entries) (\<lambda>es. clean_loop es [])))"

subsection \<open>Files\<close>

text \<open>
  A file holds either a JSON document, kept as the value \<^verbatim>\<open>json.load\<close> returns
  for it, or text that is not JSON. \<^verbatim>\<open>json.dump\<close> of a list writes the document
  that is this list. The state records the files and, in order, every call of
  \<^verbatim>\<open>open\<close>. Opening a missing file for reading raises \<^verbatim>\<open>FileNotFoundError\<close>;
  permissions and a full disk are outside the model, so opening for writing a file
  that was just read succeeds.
\<close>

type_synonym path = string

datatype content = Document json | NotJson string

datatype io_event = OpenRead path | OpenWrite path

record world =
  files :: "path \<rightharpoonup> content"
  events :: "io_event list"

fun json_load :: "content \<Rightarrow> error + json" where
  "json_load (Document d) = Inr d"
| "json_load (NotJson s) = Inl JSONDecodeError"

definition json_dump :: "json list \<Rightarrow> content" where
  "json_dump xs = Document (JArr xs)"

definition open_read :: "path \<Rightarrow> world \<Rightarrow> (error + content) \<times> world" where
  "open_read p w =
     (let w' = w\<lparr>events := events w @ [OpenRead p]\<rparr>
      in (case files w p of None \<Rightarrow> (Inl FileNotFoundError, w') | Some c \<Rightarrow> (Inr c, w')))"

definition write_file :: "path \<Rightarrow> content \<Rightarrow> world \<Rightarrow> world" where
  "write_file p c w = w\<lparr>files := (files w)(p \<mapsto> c), events := events w @ [OpenWrite p]\<rparr>"

text \<open>
  \<^verbatim>\<open>clean_har(input_file)\<close>: read and parse (lines 11, 12), filter (14 to 22),
  write (24, 25). An exception ends the call in the state reached so far.
\<close>

definition clean_har :: "path \<Rightarrow> world \<Rightarrow> (error + unit) \<times> world" where
  "clean_har input_file w =
     (case open_read input_file w of
        (Inl e, w1) \<Rightarrow> (Inl e, w1)
      | (Inr c, w1) \<Rightarrow>
          (case and_then (json_load c) cleaned_entries_of of
             Inl e \<Rightarrow> (Inl e, w1)
           | Inr cleaned \<Rightarrow> (Inr (), write_file input_file (json_dump cleaned) w1)))"

subsection \<open>The command line (lines 28 to 35)\<close>

text \<open>
  \<open>argv\<close> is \<^verbatim>\<open>sys.argv\<close>: the script's name, then the arguments. An uncaught
  exception ends the interpreter with status 1 and prints nothing on standard
  output.
\<close>

record outcome =
  exit_code :: int
  stdout :: "string list"
  uncaught :: "error option"
  final :: world

definition usage :: string where
  "usage = ''Usage: python clean_har.py <input_har_file>''"

definition main :: "string list \<Rightarrow> world \<Rightarrow> outcome" where
  "main argv w =
     (if length argv \<noteq> 2
      then \<lparr>exit_code = 1, stdout = [usage], uncaught = None, final = w\<rparr>
      else (case clean_har (argv ! 1) w of
              (Inl e, w') \<Rightarrow> \<lparr>exit_code = 1, stdout = [], uncaught = Some e, final = w'\<rparr>
            | (Inr u, w') \<Rightarrow> \<lparr>exit_code = 0, stdout = [], uncaught = None, final = w'\<rparr>))"

subsection \<open>Notions of the specification\<close>

text \<open>
  The specification speaks of fields that an object has or lacks. \<open>field v key\<close> is
  the value of \<open>key\<close> in the object \<open>v\<close>, and \<open>None\<close> when \<open>v\<close> has no such key
  or is not an object; \<open>entry_field entry key\<close> is \<^verbatim>\<open>request.key\<close> of an entry.
\<close>

fun field :: "json \<Rightarrow> string \<Rightarrow> json option" where
  "field (JObj kvs) key = map_of kvs key"
| "field _ key = None"

definition entry_field :: "json \<Rightarrow> string \<Rightarrow> json option" where
  "entry_field entry key =
     (case field entry ''request'' of None \<Rightarrow> None | Some r \<Rightarrow> field r key)"

fun is_object :: "json \<Rightarrow> bool" where
  "is_object (JObj kvs) = True"
| "is_object _ = False"

text \<open>An entry whose \<^verbatim>\<open>request.method\<close> is the string \<^verbatim>\<open>GET\<close>.\<close>

definition is_get :: "json \<Rightarrow> bool" where
  "is_get entry = (entry_field entry ''method'' = Some (JStr ''GET''))"

text \<open>A well-formed entry has \<^verbatim>\<open>request.method\<close> and \<^verbatim>\<open>request.url\<close>.\<close>

definition well_formed_entry :: "json \<Rightarrow> bool" where
  "well_formed_entry entry =
     (entry_field entry ''method'' \<noteq> None \<and> entry_field entry ''url'' \<noteq> None)"

text \<open>
  The entries of a HAR document: the top level is an object, \<^verbatim>\<open>log\<close> is absent or
  an object, and \<^verbatim>\<open>entries\<close> is absent or an array. A missing \<^verbatim>\<open>log\<close> or
  \<^verbatim>\<open>entries\<close> stands for the empty sequence. Any other value is not a HAR document.
\<close>

fun har_entries :: "json \<Rightarrow> json list option" where
  "har_entries (JObj kvs) =
     (case map_of kvs ''log'' of
        None \<Rightarrow> Some []
      | Some (JObj l) \<Rightarrow>
          (case map_of l ''entries'' of
             None \<Rightarrow> Some []
           | Some (JArr es) \<Rightarrow> Some es
           | Some _ \<Rightarrow> None)
      | Some _ \<Rightarrow> None)"
| "har_entries _ = None"

text \<open>
  An entry in the shape of the data model, with fields possibly missing: an object
  whose \<^verbatim>\<open>request\<close>, when present, is an object.
\<close>

definition entry_shaped :: "json \<Rightarrow> bool" where
  "entry_shaped entry =
     (is_object entry \<and>
      (case field entry ''request'' of None \<Rightarrow> True | Some r \<Rightarrow> is_object r))"

text \<open>An entry that lacks \<^verbatim>\<open>request\<close>, or whose request lacks \<^verbatim>\<open>method\<close>.\<close>

definition lacks_method :: "json \<Rightarrow> bool" where
  "lacks_method entry = (entry_field entry ''method'' = None)"

text \<open>
  The simpler cleaner of the specification: the loop that keeps the url of every
  entry whose method equals \<^verbatim>\<open>GET\<close> and has no favicon test, and the cleaner built
  on it.
\<close>

fun keep_get_urls :: "json list \<Rightarrow> json list \<Rightarrow> error + json list" where
  "keep_get_urls [] out = Inr out"
| "keep_get_urls (entry # rest) out =
     and_then (request_field entry ''method'') (\<lambda>m.
       if m = JStr ''GET''
       then and_then (request_field entry ''url'') (\<lambda>u. keep_get_urls rest (out @ [u]))
       else keep_get_urls rest out)"

definition simple_entries_of :: "json \<Rightarrow> error + json list" where
  "simple_entries_of har_data =
     and_then (dict_get har_data ''log'' (JObj [])) (\<lambda>log.
     and_then (dict_get log ''entries'' (JArr [])) (\<lambda>entries.
     and_then (iterate entries) (\<lambda>es. keep_get_urls es [])))"

definition simple_clean_har :: "path \<Rightarrow> world \<Rightarrow> (error + unit) \<times> world" where
  "simple_clean_har input_file w =
     (case open_read input_file w of
        (Inl e, w1) \<Rightarrow> (Inl e, w1)
      | (Inr c, w1) \<Rightarrow>
          (case and_then (json_load c) simple_entries_of of
             Inl e \<Rightarrow> (Inl e, w1)
           | Inr cleaned \<Rightarrow> (Inr (), write_file input_file (json_dump cleaned) w1)))"

subsection \<open>Example inputs\<close>

text \<open>
  The HAR document with the given entries, an entry with a method and a url, the
  example of the specification, and a file system that holds one file.
\<close>

definition har_of :: "json list \<Rightarrow> json" where
  "har_of es = JObj [(''log'', JObj [(''entries'', JArr es)])]"

definition entry_of :: "string \<Rightarrow> string \<Rightarrow> json" where
  "entry_of m u = JObj [(''request'', JObj [(''method'', JStr m), (''url'', JStr u)])]"

definition example_entries :: "json list" where
  "example_entries =
     [entry_of ''GET'' ''https://a.com/'',
      entry_of ''POST'' ''https://a.com/submit'',
      entry_of ''GET'' ''https://a.com/img.png'']"

definition example_har :: json where
  "example_har = JObj [(''log'', JObj [(''entries'', JArr example_entries)])]"

definition world_of :: "content \<Rightarrow> world" where
  "world_of c = \<lparr>files = [''capture.har'' \<mapsto> c], events = []\<rparr>"

section \<open>Properties\<close>

subsection \<open>Auxiliary facts\<close>

lemma and_then_simps [simp]:
  "and_then (Inl e) f = Inl e"
  "and_then (Inr x) f = f x"
  by (simp_all add: and_then_def)

lemma subscript_field: "subscript v key = Inr x \<longleftrightarrow> field v key = Some x"
  by (cases v) (auto split: option.splits)

lemma request_field_entry_field:
  "request_field entry key = Inr v \<longleftrightarrow> entry_field entry key = Some v"
proof (cases "field entry ''request''")
  case None
  then have "\<And>r. subscript entry ''request'' \<noteq> Inr r" by (simp add: subscript_field)
  then obtain e where "subscript entry ''request'' = Inl e"
    by (cases "subscript entry ''request''") auto
  with None show ?thesis by (simp add: request_field_def entry_field_def)
next
  case (Some r)
  then have "subscript entry ''request'' = Inr r" by (simp add: subscript_field)
  then have "request_field entry key = subscript r key" by (simp add: request_field_def)
  moreover have "entry_field entry key = field r key" using Some by (simp add: entry_field_def)
  ultimately show ?thesis by (simp only: subscript_field)
qed

lemma clean_loop_skip:
  "request_field entry ''method'' = Inr m \<Longrightarrow> m \<noteq> JStr ''GET'' \<Longrightarrow>
   clean_loop (entry # rest) acc = clean_loop rest acc"
  by simp

lemma clean_loop_get:
  "request_field entry ''method'' = Inr (JStr ''GET'') \<Longrightarrow>
   clean_loop (entry # rest) acc =
     and_then (request_field entry ''url'') (\<lambda>u. clean_loop rest (acc @ [u]))"
  by simp

lemma clean_loop_append:
  "clean_loop (xs @ ys) acc = and_then (clean_loop xs acc) (clean_loop ys)"
proof (induction xs arbitrary: acc)
  case Nil
  show ?case by simp
next
  case (Cons entry rest)
  show ?case
  proof (cases "request_field entry ''method''")
    case (Inl e)
    then show ?thesis by simp
  next
    case (Inr m)
    show ?thesis
    proof (cases "m = JStr ''GET''")
      case True
      with Inr show ?thesis
        by (cases "request_field entry ''url''") (simp_all add: Cons.IH)
    next
      case False
      with Inr show ?thesis by (simp add: Cons.IH)
    qed
  qed
qed

lemma clean_loop_well_formed:
  "list_all well_formed_entry es \<Longrightarrow>
   \<exists>out. map Some out = map (\<lambda>e. entry_field e ''url'') (filter is_get es) \<and>
         clean_loop es acc = Inr (acc @ out)"
proof (induction es arbitrary: acc)
  case Nil
  show ?case by simp
next
  case (Cons entry rest)
  from Cons.prems obtain m u where
    m: "entry_field entry ''method'' = Some m" and u: "entry_field entry ''url'' = Some u"
    by (auto simp: well_formed_entry_def)
  from Cons.prems have rest: "list_all well_formed_entry rest" by simp
  have rm: "request_field entry ''method'' = Inr m" and ru: "request_field entry ''url'' = Inr u"
    using m u by (simp_all add: request_field_entry_field)
  show ?case
  proof (cases "m = JStr ''GET''")
    case True
    from Cons.IH [OF rest, of "acc @ [u]"] obtain out where
      out: "map Some out = map (\<lambda>e. entry_field e ''url'') (filter is_get rest)"
        "clean_loop rest (acc @ [u]) = Inr ((acc @ [u]) @ out)" by blast
    have "is_get entry" using m True by (simp add: is_get_def)
    then have "map Some (u # out) = map (\<lambda>e. entry_field e ''url'') (filter is_get (entry # rest))"
      using out(1) u by simp
    moreover have "clean_loop (entry # rest) acc = Inr (acc @ u # out)"
      using rm ru True out(2) by simp
    ultimately show ?thesis by blast
  next
    case False
    from Cons.IH [OF rest, of acc] obtain out where
      out: "map Some out = map (\<lambda>e. entry_field e ''url'') (filter is_get rest)"
        "clean_loop rest acc = Inr (acc @ out)" by blast
    have "\<not> is_get entry" using m False by (simp add: is_get_def)
    then have "map Some out = map (\<lambda>e. entry_field e ''url'') (filter is_get (entry # rest))"
      using out(1) by simp
    moreover have "clean_loop (entry # rest) acc = Inr (acc @ out)"
      using rm False out(2) by simp
    ultimately show ?thesis by blast
  qed
qed

lemma har_entries_cleaned:
  assumes "har_entries doc = Some es"
  shows "cleaned_entries_of doc = clean_loop es []"
proof (cases doc)
  case (JObj kvs)
  show ?thesis
  proof (cases "map_of kvs ''log''")
    case None
    with JObj assms show ?thesis by (simp add: cleaned_entries_of_def)
  next
    case (Some lg)
    show ?thesis
    proof (cases lg)
      case (JObj l)
      note l = this
      show ?thesis
      proof (cases "map_of l ''entries''")
        case None
        with \<open>doc = JObj kvs\<close> Some l assms show ?thesis
          by (simp add: cleaned_entries_of_def)
      next
        case (Some en)
        with \<open>doc = JObj kvs\<close> \<open>map_of kvs ''log'' = Some lg\<close> l assms show ?thesis
          by (cases en) (simp_all add: cleaned_entries_of_def)
      qed
    qed (use \<open>doc = JObj kvs\<close> Some assms in simp_all)
  qed
qed (use assms in simp_all)

lemma clean_har_document:
  "files w p = Some (Document doc) \<Longrightarrow>
   clean_har p w =
     (case cleaned_entries_of doc of
        Inl e \<Rightarrow> (Inl e, w\<lparr>events := events w @ [OpenRead p]\<rparr>)
      | Inr out \<Rightarrow>
          (Inr (), w\<lparr>files := (files w)(p \<mapsto> Document (JArr out)),
                     events := events w @ [OpenRead p, OpenWrite p]\<rparr>))"
  by (simp add: clean_har_def open_read_def write_file_def json_dump_def Let_def split: sum.splits)

lemma clean_har_not_json:
  "files w p = Some (NotJson s) \<Longrightarrow>
   clean_har p w = (Inl JSONDecodeError, w\<lparr>events := events w @ [OpenRead p]\<rparr>)"
  by (simp add: clean_har_def open_read_def Let_def)

lemma clean_har_missing:
  "files w p = None \<Longrightarrow>
   clean_har p w = (Inl FileNotFoundError, w\<lparr>events := events w @ [OpenRead p]\<rparr>)"
  by (simp add: clean_har_def open_read_def Let_def)

lemma filter_positions:
  "\<exists>f. (\<forall>k<length (filter P xs). f k < length xs \<and> filter P xs ! k = xs ! f k) \<and>
       (\<forall>j<length (filter P xs). \<forall>k<j. f k < f j)"
proof (induction xs)
  case Nil
  show ?case by simp
next
  case (Cons x xs)
  then obtain f where
    f1: "\<And>k. k < length (filter P xs) \<Longrightarrow> f k < length xs \<and> filter P xs ! k = xs ! f k" and
    f2: "\<And>j k. j < length (filter P xs) \<Longrightarrow> k < j \<Longrightarrow> f k < f j" by blast
  show ?case
  proof (cases "P x")
    case True
    define g where "g = (\<lambda>k. case k of 0 \<Rightarrow> 0 | Suc i \<Rightarrow> Suc (f i))"
    have g0: "g 0 = 0" and gS: "\<And>i. g (Suc i) = Suc (f i)" by (simp_all add: g_def)
    have a: "g k < length (x # xs) \<and> filter P (x # xs) ! k = (x # xs) ! g k"
      if "k < length (filter P (x # xs))" for k
    proof (cases k)
      case 0
      with True show ?thesis by (simp add: g0)
    next
      case (Suc i)
      with that True have "i < length (filter P xs)" by simp
      from f1 [OF this] Suc True show ?thesis by (simp add: gS)
    qed
    have b: "g k < g j" if "j < length (filter P (x # xs))" and "k < j" for j k
    proof (cases j)
      case 0
      with that show ?thesis by simp
    next
      case (Suc j')
      with that True have j': "j' < length (filter P xs)" by simp
      show ?thesis
      proof (cases k)
        case 0
        with Suc show ?thesis by (simp add: g0 gS)
      next
        case (Suc k')
        with \<open>j = Suc j'\<close> that have "k' < j'" by simp
        from f2 [OF j' this] Suc \<open>j = Suc j'\<close> show ?thesis by (simp add: gS)
      qed
    qed
    from a b show ?thesis by blast
  next
    case False
    define g where "g = (\<lambda>k. Suc (f k))"
    have a: "g k < length (x # xs) \<and> filter P (x # xs) ! k = (x # xs) ! g k"
      if "k < length (filter P (x # xs))" for k
    proof -
      from that False have "k < length (filter P xs)" by simp
      from f1 [OF this] False show ?thesis by (simp add: g_def)
    qed
    have b: "g k < g j" if "j < length (filter P (x # xs))" and "k < j" for j k
    proof -
      from that False have "j < length (filter P xs)" by simp
      from f2 [OF this that(2)] show ?thesis by (simp add: g_def)
    qed
    from a b show ?thesis by blast
  qed
qed

lemma clean_loop_drop_entry:
  assumes "\<And>a. clean_loop [entry] a = Inr a"
  shows "clean_loop (before @ entry # after) acc = clean_loop (before @ after) acc"
proof -
  have "clean_loop (entry # after) a = clean_loop after a" for a
    using clean_loop_append [of "[entry]" after a] assms [of a]
    by (simp del: clean_loop.simps)
  then have "clean_loop (entry # after) = clean_loop after" by (rule ext)
  then show ?thesis
    using clean_loop_append [of before "entry # after" acc] clean_loop_append [of before after acc]
    by (simp del: clean_loop.simps)
qed

lemma example_well_formed: "list_all well_formed_entry example_entries"
  by (simp add: example_entries_def entry_of_def well_formed_entry_def entry_field_def)

lemma example_har_entries: "har_entries example_har = Some example_entries"
  by (simp add: example_har_def)

lemma example_get_urls:
  "map (\<lambda>e. entry_field e ''url'') (filter is_get example_entries) =
     [Some (JStr ''https://a.com/''), Some (JStr ''https://a.com/img.png'')]"
  by (simp add: example_entries_def entry_of_def is_get_def entry_field_def)

lemma har_entries_har_of: "har_entries (har_of es) = Some es"
  by (simp add: har_of_def)

lemma clean_loop_non_get:
  assumes "entry_field entry ''method'' = Some m" and "m \<noteq> JStr ''GET''"
  shows "clean_loop (before @ entry # after) acc = clean_loop (before @ after) acc"
proof (rule clean_loop_drop_entry)
  fix a
  from assms(1) have "request_field entry ''method'' = Inr m"
    by (simp add: request_field_entry_field)
  with assms(2) show "clean_loop [entry] a = Inr a" by simp
qed

lemma clean_loop_entry_of_get:
  "clean_loop (entry_of ''GET'' u # after) acc = clean_loop after (acc @ [JStr u])"
  by (simp add: entry_of_def request_field_def)

lemma clean_har_success:
  assumes "fst (clean_har p w) = Inr ()"
  shows "\<exists>out. snd (clean_har p w) =
           w\<lparr>files := (files w)(p \<mapsto> Document (JArr out)),
             events := events w @ [OpenRead p, OpenWrite p]\<rparr>"
proof (cases "files w p")
  case None
  with assms show ?thesis by (simp add: clean_har_missing)
next
  case (Some c)
  show ?thesis
  proof (cases c)
    case (Document doc)
    with Some have f: "files w p = Some (Document doc)" by simp
    show ?thesis
    proof (cases "cleaned_entries_of doc")
      case (Inl e)
      with assms clean_har_document [OF f] show ?thesis by simp
    next
      case (Inr out)
      with clean_har_document [OF f] have "snd (clean_har p w) =
           w\<lparr>files := (files w)(p \<mapsto> Document (JArr out)),
             events := events w @ [OpenRead p, OpenWrite p]\<rparr>" by simp
      then show ?thesis by blast
    qed
  next
    case (NotJson s)
    with Some assms show ?thesis by (simp add: clean_har_not_json)
  qed
qed

lemma clean_har_failure:
  assumes "fst (clean_har p w) = Inl e"
  shows "snd (clean_har p w) = w\<lparr>events := events w @ [OpenRead p]\<rparr>"
proof (cases "files w p")
  case None
  then show ?thesis by (simp add: clean_har_missing)
next
  case (Some c)
  show ?thesis
  proof (cases c)
    case (Document doc)
    with Some have f: "files w p = Some (Document doc)" by simp
    show ?thesis
    proof (cases "cleaned_entries_of doc")
      case (Inl e')
      with clean_har_document [OF f] show ?thesis by simp
    next
      case (Inr out)
      with assms clean_har_document [OF f] show ?thesis by simp
    qed
  next
    case (NotJson s)
    with Some show ?thesis by (simp add: clean_har_not_json)
  qed
qed

lemma cleaned_entries_of_array: "cleaned_entries_of (JArr xs) = Inl AttributeError"
  by (simp add: cleaned_entries_of_def)

lemma clean_har_array:
  "files w p = Some (Document (JArr xs)) \<Longrightarrow>
   clean_har p w = (Inl AttributeError, w\<lparr>events := events w @ [OpenRead p]\<rparr>)"
  by (simp add: clean_har_document cleaned_entries_of_array)

lemma request_field_shaped:
  assumes "entry_shaped entry"
  shows "request_field entry key =
     (case field entry ''request'' of
        None \<Rightarrow> Inl (KeyError ''request'')
      | Some r \<Rightarrow> (case field r key of None \<Rightarrow> Inl (KeyError key) | Some v \<Rightarrow> Inr v))"
proof (cases entry)
  case (JObj kvs)
  show ?thesis
  proof (cases "map_of kvs ''request''")
    case None
    with JObj show ?thesis by (simp add: request_field_def)
  next
    case (Some r)
    with JObj assms have "is_object r" by (simp add: entry_shaped_def)
    then obtain rs where "r = JObj rs" by (cases r) simp_all
    with JObj Some show ?thesis
      by (cases "map_of rs key") (simp_all add: request_field_def)
  qed
qed (use assms in \<open>simp_all add: entry_shaped_def\<close>)

lemma clean_loop_lacks_method:
  assumes "list_all entry_shaped es" and "list_ex lacks_method es"
  shows "\<exists>k. k \<in> {''request'', ''method'', ''url''} \<and> clean_loop es acc = Inl (KeyError k)"
  using assms
proof (induction es arbitrary: acc)
  case Nil
  then show ?case by simp
next
  case (Cons entry rest)
  from Cons.prems have sh: "entry_shaped entry" and shr: "list_all entry_shaped rest" by simp_all
  note rf = request_field_shaped [OF sh]
  show ?case
  proof (cases "field entry ''request''")
    case None
    then have "clean_loop (entry # rest) acc = Inl (KeyError ''request'')"
      by (simp add: rf)
    then show ?thesis by blast
  next
    case (Some r)
    show ?thesis
    proof (cases "field r ''method''")
      case None
      with Some have "clean_loop (entry # rest) acc = Inl (KeyError ''method'')"
        by (simp add: rf)
      then show ?thesis by blast
    next
      case m: (Some m)
      with Some have "\<not> lacks_method entry" by (simp add: lacks_method_def entry_field_def)
      with Cons.prems have lr: "list_ex lacks_method rest" by simp
      show ?thesis
      proof (cases "m = JStr ''GET''")
        case False
        with Some m have "clean_loop (entry # rest) acc = clean_loop rest acc"
          by (simp add: rf)
        with Cons.IH [OF shr lr, of acc] show ?thesis by simp
      next
        case True
        show ?thesis
        proof (cases "field r ''url''")
          case None
          with Some m True have "clean_loop (entry # rest) acc = Inl (KeyError ''url'')"
            by (simp add: rf)
          then show ?thesis by blast
        next
          case u: (Some u)
          with Some m True have "clean_loop (entry # rest) acc = clean_loop rest (acc @ [u])"
            by (simp add: rf)
          with Cons.IH [OF shr lr, of "acc @ [u]"] show ?thesis by simp
        qed
      qed
    qed
  qed
qed

lemma clean_loop_keep_get_urls: "clean_loop es acc = keep_get_urls es acc"
proof (induction es arbitrary: acc)
  case Nil
  show ?case by simp
next
  case (Cons entry rest)
  show ?case
  proof (cases "request_field entry ''method''")
    case (Inl e)
    then show ?thesis by simp
  next
    case (Inr m)
    then show ?thesis
      by (cases "m = JStr ''GET''") (simp_all add: Cons.IH)
  qed
qed

lemma simple_entries_of_eq: "cleaned_entries_of doc = simple_entries_of doc"
  by (simp add: cleaned_entries_of_def simple_entries_of_def clean_loop_keep_get_urls
      del: clean_loop.simps keep_get_urls.simps)

text \<open>
  Outside the shape of the data model the exception is another one: a \<^verbatim>\<open>log\<close>
  that is not an object has no method \<^verbatim>\<open>get\<close>, and an entry or a request that is
  not an object cannot be subscripted with a string.
\<close>

lemma outside_the_data_model:
  "cleaned_entries_of (JObj [(''log'', JNull)]) = Inl AttributeError"
  "cleaned_entries_of (har_of [JInt 5, JObj []]) = Inl TypeError"
  "cleaned_entries_of (har_of [JObj [(''request'', JNull)]]) = Inl TypeError"
  by (simp_all add: cleaned_entries_of_def har_of_def request_field_def)

subsection \<open>C1: the urls of the GET entries\<close>

text \<open>
  Claim C1. For a well-formed HAR document (the top level is an object, \<^verbatim>\<open>log\<close>
  and \<^verbatim>\<open>entries\<close> are absent or an object and an array, and every entry has
  \<^verbatim>\<open>request.method\<close> and \<^verbatim>\<open>request.url\<close>), the cleaner succeeds and writes exactly
  the list of the \<^verbatim>\<open>request.url\<close> values of the entries whose method is \<^verbatim>\<open>GET\<close>, in
  place of the file it read. On the example of the specification (a GET, a POST and
  a GET entry) the list is the two GET urls.
\<close>

theorem clean_keeps_get_urls:
  "(files w p = Some (Document doc) \<and> har_entries doc = Some es \<and>
    list_all well_formed_entry es \<longrightarrow>
      (\<exists>out. map Some out = map (\<lambda>e. entry_field e ''url'') (filter is_get es) \<and>
             cleaned_entries_of doc = Inr out \<and>
             clean_har p w =
               (Inr (), w\<lparr>files := (files w)(p \<mapsto> Document (JArr out)),
                          events := events w @ [OpenRead p, OpenWrite p]\<rparr>))) \<and>
   cleaned_entries_of example_har =
     Inr [JStr ''https://a.com/'', JStr ''https://a.com/img.png'']"
proof (intro conjI impI)
  assume a: "files w p = Some (Document doc) \<and> har_entries doc = Some es \<and>
    list_all well_formed_entry es"
  then obtain out where
    out: "map Some out = map (\<lambda>e. entry_field e ''url'') (filter is_get es)"
      "clean_loop es [] = Inr ([] @ out)"
    using clean_loop_well_formed [of es "[]"] by blast
  from a out(2) have c: "cleaned_entries_of doc = Inr out"
    by (simp add: har_entries_cleaned)
  from a have "files w p = Some (Document doc)" by simp
  from clean_har_document [OF this] c
  have "clean_har p w =
      (Inr (), w\<lparr>files := (files w)(p \<mapsto> Document (JArr out)),
                 events := events w @ [OpenRead p, OpenWrite p]\<rparr>)" by simp
  with out(1) c show "\<exists>out. map Some out = map (\<lambda>e. entry_field e ''url'') (filter is_get es) \<and>
             cleaned_entries_of doc = Inr out \<and>
             clean_har p w =
               (Inr (), w\<lparr>files := (files w)(p \<mapsto> Document (JArr out)),
                          events := events w @ [OpenRead p, OpenWrite p]\<rparr>)" by blast
next
  show "cleaned_entries_of example_har =
     Inr [JStr ''https://a.com/'', JStr ''https://a.com/img.png'']"
    by (simp add: example_har_def example_entries_def entry_of_def cleaned_entries_of_def
        request_field_def)
qed

theorem clean_keeps_get_urls_witness:
  "files (world_of (Document example_har)) ''capture.har'' = Some (Document example_har) \<and>
   har_entries example_har = Some example_entries \<and>
   list_all well_formed_entry example_entries \<and>
   clean_har ''capture.har'' (world_of (Document example_har)) =
     (Inr (), \<lparr>files = [''capture.har'' \<mapsto>
                 Document (JArr [JStr ''https://a.com/'', JStr ''https://a.com/img.png''])],
               events = [OpenRead ''capture.har'', OpenWrite ''capture.har'']\<rparr>)"
proof -
  have f: "files (world_of (Document example_har)) ''capture.har'' = Some (Document example_har)"
    by (simp add: world_of_def)
  from clean_keeps_get_urls [of "world_of (Document example_har)" "''capture.har''"
      example_har example_entries] f example_har_entries example_well_formed
  obtain out where
    out: "map Some out = map (\<lambda>e. entry_field e ''url'') (filter is_get example_entries)"
    and c: "clean_har ''capture.har'' (world_of (Document example_har)) =
       (Inr (), (world_of (Document example_har))\<lparr>files :=
           (files (world_of (Document example_har)))(''capture.har'' \<mapsto> Document (JArr out)),
         events := events (world_of (Document example_har)) @
           [OpenRead ''capture.har'', OpenWrite ''capture.har'']\<rparr>)"
    by blast
  from out have "map Some out = map Some [JStr ''https://a.com/'', JStr ''https://a.com/img.png'']"
    by (simp add: example_get_urls)
  then have "out = [JStr ''https://a.com/'', JStr ''https://a.com/img.png'']"
    by (simp only: inj_map_eq_map [OF inj_Some])
  with c f example_har_entries example_well_formed show ?thesis
    by (simp add: world_of_def)
qed

subsection \<open>C2: no entries, empty output\<close>

text \<open>
  Claim C2. When the top-level object has no \<^verbatim>\<open>log\<close> field, or \<^verbatim>\<open>log\<close> is an
  object without an \<^verbatim>\<open>entries\<close> field, or \<^verbatim>\<open>entries\<close> is the empty array, the
  cleaner does not fail and writes the empty array.
\<close>

theorem clean_no_entries:
  assumes "files w p = Some (Document (JObj kvs))"
    and "map_of kvs ''log'' = None \<or>
         (\<exists>l. map_of kvs ''log'' = Some (JObj l) \<and>
              (map_of l ''entries'' = None \<or> map_of l ''entries'' = Some (JArr [])))"
  shows "cleaned_entries_of (JObj kvs) = Inr [] \<and>
         clean_har p w =
           (Inr (), w\<lparr>files := (files w)(p \<mapsto> Document (JArr [])),
                      events := events w @ [OpenRead p, OpenWrite p]\<rparr>)"
proof -
  from assms(2) have "har_entries (JObj kvs) = Some []" by auto
  then have c: "cleaned_entries_of (JObj kvs) = Inr []"
    by (simp add: har_entries_cleaned)
  with clean_har_document [OF assms(1)] show ?thesis by simp
qed

theorem clean_no_entries_witness:
  "clean_har ''capture.har'' (world_of (Document (JObj []))) =
     (Inr (), \<lparr>files = [''capture.har'' \<mapsto> Document (JArr [])],
               events = [OpenRead ''capture.har'', OpenWrite ''capture.har'']\<rparr>) \<and>
   clean_har ''capture.har'' (world_of (Document (JObj [(''log'', JObj [])]))) =
     (Inr (), \<lparr>files = [''capture.har'' \<mapsto> Document (JArr [])],
               events = [OpenRead ''capture.har'', OpenWrite ''capture.har'']\<rparr>) \<and>
   clean_har ''capture.har'' (world_of (Document (har_of []))) =
     (Inr (), \<lparr>files = [''capture.har'' \<mapsto> Document (JArr [])],
               events = [OpenRead ''capture.har'', OpenWrite ''capture.har'']\<rparr>)"
  using clean_no_entries [of "world_of (Document (JObj []))" "''capture.har''" "[]"]
    clean_no_entries [of "world_of (Document (JObj [(''log'', JObj [])]))" "''capture.har''"
      "[(''log'', JObj [])]"]
    clean_no_entries [of "world_of (Document (har_of []))" "''capture.har''"
      "[(''log'', JObj [(''entries'', JArr [])])]"]
  by (simp add: world_of_def har_of_def)


subsection \<open>C3: entries that are not GET\<close>

text \<open>
  Claim C3. An entry whose \<^verbatim>\<open>request.method\<close> is present and is not the string
  \<^verbatim>\<open>GET\<close> contributes nothing: the loop, and the cleaner on a document, behave as
  if the entry were not there, with the same output or the same exception. Nothing
  is assumed about \<^verbatim>\<open>request.url\<close> of the entry, which may be any value or absent.
\<close>

theorem non_get_entry_contributes_nothing:
  assumes "entry_field entry ''method'' = Some m" and "m \<noteq> JStr ''GET''"
  shows "clean_loop (before @ entry # after) acc = clean_loop (before @ after) acc \<and>
         cleaned_entries_of (har_of (before @ entry # after)) =
           cleaned_entries_of (har_of (before @ after))"
  using clean_loop_non_get [OF assms]
  by (simp add: har_entries_cleaned [OF har_entries_har_of])

theorem non_get_entry_contributes_nothing_witness:
  "entry_field (JObj [(''request'', JObj [(''method'', JStr ''POST'')])]) ''method'' =
     Some (JStr ''POST'') \<and>
   JStr ''POST'' \<noteq> JStr ''GET'' \<and>
   cleaned_entries_of (har_of [entry_of ''GET'' ''https://a.com/'',
       JObj [(''request'', JObj [(''method'', JStr ''POST'')])],
       entry_of ''GET'' ''https://a.com/img.png'']) =
     Inr [JStr ''https://a.com/'', JStr ''https://a.com/img.png'']"
proof -
  have m: "entry_field (JObj [(''request'', JObj [(''method'', JStr ''POST'')])]) ''method'' =
     Some (JStr ''POST'')" by (simp add: entry_field_def)
  have n: "JStr ''POST'' \<noteq> JStr ''GET''" by simp
  have "cleaned_entries_of (har_of [entry_of ''GET'' ''https://a.com/'',
       entry_of ''GET'' ''https://a.com/img.png'']) =
     Inr [JStr ''https://a.com/'', JStr ''https://a.com/img.png'']"
    by (simp add: har_entries_cleaned [OF har_entries_har_of] clean_loop_entry_of_get
        del: clean_loop.simps(2))
  with non_get_entry_contributes_nothing [OF m n, of "[entry_of ''GET'' ''https://a.com/'']"
      "[entry_of ''GET'' ''https://a.com/img.png'']" "[]"] m n
  show ?thesis by simp
qed


subsection \<open>C4: a method string that ends in favicon.ico\<close>

text \<open>
  Claim C4. An entry whose method string has \<^verbatim>\<open>favicon.ico\<close> as its last
  \<^verbatim>\<open>/\<close>-segment is excluded from the output. Such a method is never the string
  \<^verbatim>\<open>GET\<close>, so the hypothesis that the method equals \<^verbatim>\<open>GET\<close> is not needed. The
  url is not inspected: a GET entry is kept whatever its url, also a url that ends
  in \<^verbatim>\<open>/favicon.ico\<close>.
\<close>

theorem favicon_method_entry_excluded:
  "(entry_field entry ''method'' = Some (JStr m) \<and>
    last (py_split CHR ''/'' m) = ''favicon.ico'' \<longrightarrow>
      clean_loop (before @ entry # after) acc = clean_loop (before @ after) acc) \<and>
   clean_loop (entry_of ''GET'' u # after) acc = clean_loop after (acc @ [JStr u])"
proof (intro conjI impI)
  assume a: "entry_field entry ''method'' = Some (JStr m) \<and>
    last (py_split CHR ''/'' m) = ''favicon.ico''"
  have "last (py_split CHR ''/'' ''GET'') = ''GET''" by simp
  with a have "JStr m \<noteq> JStr ''GET''" by auto
  with a show "clean_loop (before @ entry # after) acc = clean_loop (before @ after) acc"
    by (simp add: clean_loop_non_get)
next
  show "clean_loop (entry_of ''GET'' u # after) acc = clean_loop after (acc @ [JStr u])"
    by (rule clean_loop_entry_of_get)
qed

theorem favicon_method_entry_excluded_witness:
  "entry_field (entry_of ''GET/favicon.ico'' ''https://a.com/'') ''method'' =
     Some (JStr ''GET/favicon.ico'') \<and>
   last (py_split CHR ''/'' ''GET/favicon.ico'') = ''favicon.ico'' \<and>
   clean_loop [entry_of ''GET/favicon.ico'' ''https://a.com/'',
               entry_of ''GET'' ''https://a.com/favicon.ico''] [] =
     Inr [JStr ''https://a.com/favicon.ico'']"
proof -
  have m: "entry_field (entry_of ''GET/favicon.ico'' ''https://a.com/'') ''method'' =
     Some (JStr ''GET/favicon.ico'')" by (simp add: entry_field_def entry_of_def)
  have s: "last (py_split CHR ''/'' ''GET/favicon.ico'') = ''favicon.ico''" by simp
  from favicon_method_entry_excluded [of "entry_of ''GET/favicon.ico'' ''https://a.com/''"
      "''GET/favicon.ico''" "[]" "[entry_of ''GET'' ''https://a.com/favicon.ico'']" "[]"
      "''https://a.com/favicon.ico''"] m s
    favicon_method_entry_excluded [of "entry_of ''GET/favicon.ico'' ''https://a.com/''"
      "''GET/favicon.ico''" "[]" "[]" "[]" "''https://a.com/favicon.ico''"]
  show ?thesis by (simp del: clean_loop.simps(2))
qed

subsection \<open>C5: the order of the output\<close>

text \<open>
  Claim C5. For a well-formed HAR document the cleaner succeeds, and its output
  lists the urls of the surviving entries in the order of the entries: there is a
  strictly increasing map \<open>f\<close> from the positions of the output to positions of
  the input such that the \<open>k\<close>-th output is the url of the GET entry at position
  \<open>f k\<close>, and the output has one element for each GET entry.
\<close>

theorem clean_preserves_order:
  assumes "har_entries doc = Some es" and "list_all well_formed_entry es"
  shows "\<exists>out f. cleaned_entries_of doc = Inr out \<and>
           length out = length (filter is_get es) \<and>
           (\<forall>k<length out. f k < length es \<and> is_get (es ! f k) \<and>
                entry_field (es ! f k) ''url'' = Some (out ! k)) \<and>
           (\<forall>j<length out. \<forall>k<j. f k < f j)"
proof -
  from clean_loop_well_formed [OF assms(2), of "[]"] obtain out where
    out: "map Some out = map (\<lambda>e. entry_field e ''url'') (filter is_get es)"
    and l: "clean_loop es [] = Inr out" by auto
  from l assms(1) have c: "cleaned_entries_of doc = Inr out"
    by (simp add: har_entries_cleaned)
  from out have len: "length out = length (filter is_get es)"
    by (metis length_map)
  from filter_positions [of is_get es] obtain f where
    f1: "\<And>k. k < length (filter is_get es) \<Longrightarrow>
           f k < length es \<and> filter is_get es ! k = es ! f k" and
    f2: "\<And>j k. j < length (filter is_get es) \<Longrightarrow> k < j \<Longrightarrow> f k < f j" by blast
  have a: "f k < length es \<and> is_get (es ! f k) \<and>
      entry_field (es ! f k) ''url'' = Some (out ! k)" if "k < length out" for k
  proof -
    from that len have k: "k < length (filter is_get es)" by simp
    then have "filter is_get es ! k \<in> set (filter is_get es)" by (rule nth_mem)
    then have g: "is_get (filter is_get es ! k)" by simp
    have "Some (out ! k) = map Some out ! k" using that by simp
    also have "\<dots> = entry_field (filter is_get es ! k) ''url''"
      using k by (simp add: out)
    finally have "entry_field (filter is_get es ! k) ''url'' = Some (out ! k)" by simp
    with g f1 [OF k] show ?thesis by simp
  qed
  have b: "f k < f j" if "j < length out" and "k < j" for j k
    using f2 [of j k] that len by simp
  from c len a b show ?thesis by blast
qed

theorem clean_preserves_order_witness:
  "har_entries example_har = Some example_entries \<and>
   list_all well_formed_entry example_entries \<and>
   (\<exists>out f. cleaned_entries_of example_har = Inr out \<and>
           length out = length (filter is_get example_entries) \<and>
           (\<forall>k<length out. f k < length example_entries \<and> is_get (example_entries ! f k) \<and>
                entry_field (example_entries ! f k) ''url'' = Some (out ! k)) \<and>
           (\<forall>j<length out. \<forall>k<j. f k < f j))"
  using clean_preserves_order [OF example_har_entries example_well_formed]
    example_har_entries example_well_formed by blast

subsection \<open>C6: a second run on the cleaned file\<close>

text \<open>
  The cleaned file holds a top-level array, and a \<^verbatim>\<open>list\<close> has no method
  \<^verbatim>\<open>get\<close>: the second run raises \<^verbatim>\<open>AttributeError\<close> on line 15 and writes
  nothing, where the specification expects an empty output without an exception.
\<close>

theorem second_run_counterexample:
  "clean_har ''capture.har'' (world_of (Document (JArr [JStr ''https://a.com/'']))) =
     (Inl AttributeError,
      \<lparr>files = [''capture.har'' \<mapsto> Document (JArr [JStr ''https://a.com/''])],
       events = [OpenRead ''capture.har'']\<rparr>)"
  by (simp add: clean_har_array world_of_def)

text \<open>
  Claim C6, as amended. On a file whose content is a top-level JSON array the
  cleaner raises \<^verbatim>\<open>AttributeError\<close> after opening the file for reading only, and
  the file is left as it is. In particular, a second run after a successful first
  run raises \<^verbatim>\<open>AttributeError\<close> and leaves the file as the first run wrote it.
\<close>

theorem second_run_raises:
  "(files w p = Some (Document (JArr xs)) \<longrightarrow>
      clean_har p w = (Inl AttributeError, w\<lparr>events := events w @ [OpenRead p]\<rparr>)) \<and>
   (fst (clean_har p w) = Inr () \<longrightarrow>
      fst (clean_har p (snd (clean_har p w))) = Inl AttributeError \<and>
      files (snd (clean_har p (snd (clean_har p w)))) = files (snd (clean_har p w)))"
proof (intro conjI impI)
  assume "files w p = Some (Document (JArr xs))"
  then show "clean_har p w = (Inl AttributeError, w\<lparr>events := events w @ [OpenRead p]\<rparr>)"
    by (rule clean_har_array)
next
  assume a: "fst (clean_har p w) = Inr ()"
  from clean_har_success [OF a] obtain out where
    "snd (clean_har p w) =
       w\<lparr>files := (files w)(p \<mapsto> Document (JArr out)),
         events := events w @ [OpenRead p, OpenWrite p]\<rparr>" by blast
  then have "files (snd (clean_har p w)) p = Some (Document (JArr out))" by simp
  from clean_har_array [OF this]
  show "fst (clean_har p (snd (clean_har p w))) = Inl AttributeError"
    and "files (snd (clean_har p (snd (clean_har p w)))) = files (snd (clean_har p w))"
    by simp_all
qed

theorem second_run_raises_witness:
  "fst (clean_har ''capture.har'' (world_of (Document example_har))) = Inr () \<and>
   fst (clean_har ''capture.har''
         (snd (clean_har ''capture.har'' (world_of (Document example_har))))) =
     Inl AttributeError \<and>
   files (snd (clean_har ''capture.har''
         (snd (clean_har ''capture.har'' (world_of (Document example_har))))))
       ''capture.har'' =
     Some (Document (JArr [JStr ''https://a.com/'', JStr ''https://a.com/img.png'']))"
proof -
  have c: "cleaned_entries_of example_har =
     Inr [JStr ''https://a.com/'', JStr ''https://a.com/img.png'']"
    by (simp add: example_har_def example_entries_def entry_of_def cleaned_entries_of_def
        request_field_def)
  have f: "files (world_of (Document example_har)) ''capture.har'' = Some (Document example_har)"
    by (simp add: world_of_def)
  have r: "clean_har ''capture.har'' (world_of (Document example_har)) =
     (Inr (), (world_of (Document example_har))\<lparr>files :=
        (files (world_of (Document example_har)))(''capture.har'' \<mapsto>
           Document (JArr [JStr ''https://a.com/'', JStr ''https://a.com/img.png''])),
        events := events (world_of (Document example_har)) @
           [OpenRead ''capture.har'', OpenWrite ''capture.har'']\<rparr>)"
    using clean_har_document [OF f] c by simp
  then have s: "fst (clean_har ''capture.har'' (world_of (Document example_har))) = Inr ()"
    by simp
  from second_run_raises [of "world_of (Document example_har)" "''capture.har''" "[]"] s
  have "fst (clean_har ''capture.har''
         (snd (clean_har ''capture.har'' (world_of (Document example_har))))) =
     Inl AttributeError"
    and "files (snd (clean_har ''capture.har''
         (snd (clean_har ''capture.har'' (world_of (Document example_har)))))) =
      files (snd (clean_har ''capture.har'' (world_of (Document example_har))))"
    by blast+
  with s r show ?thesis by simp
qed


subsection \<open>C7: an entry without request or method\<close>

text \<open>
  Claim C7. For a HAR document whose entries are objects and whose \<^verbatim>\<open>request\<close>
  values are objects (the records of the data model, with fields possibly
  missing), if some entry lacks \<^verbatim>\<open>request\<close> or its request lacks \<^verbatim>\<open>method\<close>, the
  cleaner raises \<^verbatim>\<open>KeyError\<close>, for one of the keys \<^verbatim>\<open>request\<close>, \<^verbatim>\<open>method\<close> and
  \<^verbatim>\<open>url\<close>. The run stops there: the file is not opened for writing and no output
  is produced.
\<close>

theorem missing_field_aborts:
  assumes "files w p = Some (Document doc)"
    and "har_entries doc = Some es"
    and "list_all entry_shaped es"
    and "list_ex lacks_method es"
  shows "\<exists>k. k \<in> {''request'', ''method'', ''url''} \<and>
           cleaned_entries_of doc = Inl (KeyError k) \<and>
           clean_har p w = (Inl (KeyError k), w\<lparr>events := events w @ [OpenRead p]\<rparr>)"
proof -
  from clean_loop_lacks_method [OF assms(3,4), of "[]"] obtain k where
    k: "k \<in> {''request'', ''method'', ''url''}" and l: "clean_loop es [] = Inl (KeyError k)"
    by blast
  from l assms(2) have c: "cleaned_entries_of doc = Inl (KeyError k)"
    by (simp add: har_entries_cleaned)
  with clean_har_document [OF assms(1)]
  have "clean_har p w = (Inl (KeyError k), w\<lparr>events := events w @ [OpenRead p]\<rparr>)" by simp
  with k c show ?thesis by blast
qed

theorem missing_field_aborts_witness:
  "list_all entry_shaped [entry_of ''POST'' ''https://a.com/submit'',
       JObj [(''request'', JObj [(''url'', JStr ''https://a.com/'')])]] \<and>
   list_ex lacks_method [entry_of ''POST'' ''https://a.com/submit'',
       JObj [(''request'', JObj [(''url'', JStr ''https://a.com/'')])]] \<and>
   (\<exists>k. k \<in> {''request'', ''method'', ''url''} \<and>
     clean_har ''capture.har'' (world_of (Document (har_of
       [entry_of ''POST'' ''https://a.com/submit'',
        JObj [(''request'', JObj [(''url'', JStr ''https://a.com/'')])]]))) =
     (Inl (KeyError k),
      \<lparr>files = [''capture.har'' \<mapsto> Document (har_of
         [entry_of ''POST'' ''https://a.com/submit'',
          JObj [(''request'', JObj [(''url'', JStr ''https://a.com/'')])]])],
       events = [OpenRead ''capture.har'']\<rparr>))"
proof -
  let ?es = "[entry_of ''POST'' ''https://a.com/submit'',
       JObj [(''request'', JObj [(''url'', JStr ''https://a.com/'')])]]"
  have a: "list_all entry_shaped ?es"
    by (simp add: entry_shaped_def entry_of_def)
  have b: "list_ex lacks_method ?es"
    by (simp add: lacks_method_def entry_field_def entry_of_def)
  have f: "files (world_of (Document (har_of ?es))) ''capture.har'' =
      Some (Document (har_of ?es))" by (simp add: world_of_def)
  from missing_field_aborts [OF f har_entries_har_of a b] obtain k where
    "k \<in> {''request'', ''method'', ''url''}"
    "clean_har ''capture.har'' (world_of (Document (har_of ?es))) =
       (Inl (KeyError k), (world_of (Document (har_of ?es)))\<lparr>events :=
          events (world_of (Document (har_of ?es))) @ [OpenRead ''capture.har'']\<rparr>)"
    by blast
  then have "\<exists>k. k \<in> {''request'', ''method'', ''url''} \<and>
     clean_har ''capture.har'' (world_of (Document (har_of ?es))) =
     (Inl (KeyError k),
      \<lparr>files = [''capture.har'' \<mapsto> Document (har_of ?es)],
       events = [OpenRead ''capture.har'']\<rparr>)"
    by (auto simp: world_of_def)
  with a b show ?thesis by blast
qed


subsection \<open>C8: a failed run leaves the file unchanged\<close>

text \<open>
  Claim C8. When the file does not hold JSON, the cleaner raises the parse error,
  and when the filtering pass raises on the parsed document, the cleaner raises
  that exception; in both cases the only \<^verbatim>\<open>open\<close> call made is the one for reading
  and every file is unchanged. More generally, whenever the cleaner ends with an
  exception, the files are those it started with and the file was never opened for
  writing.
\<close>

theorem failed_run_leaves_file:
  "(files w p = Some (NotJson s) \<longrightarrow>
      clean_har p w = (Inl JSONDecodeError, w\<lparr>events := events w @ [OpenRead p]\<rparr>)) \<and>
   (files w p = Some (Document doc) \<and> cleaned_entries_of doc = Inl e \<longrightarrow>
      clean_har p w = (Inl e, w\<lparr>events := events w @ [OpenRead p]\<rparr>)) \<and>
   (fst (clean_har p w) = Inl e' \<longrightarrow>
      files (snd (clean_har p w)) = files w \<and>
      events (snd (clean_har p w)) = events w @ [OpenRead p])"
proof (intro conjI impI)
  assume "files w p = Some (NotJson s)"
  then show "clean_har p w = (Inl JSONDecodeError, w\<lparr>events := events w @ [OpenRead p]\<rparr>)"
    by (rule clean_har_not_json)
next
  assume a: "files w p = Some (Document doc) \<and> cleaned_entries_of doc = Inl e"
  then have "files w p = Some (Document doc)" by simp
  from clean_har_document [OF this] a
  show "clean_har p w = (Inl e, w\<lparr>events := events w @ [OpenRead p]\<rparr>)" by simp
next
  assume a: "fst (clean_har p w) = Inl e'"
  from clean_har_failure [OF a]
  show "files (snd (clean_har p w)) = files w"
    and "events (snd (clean_har p w)) = events w @ [OpenRead p]" by simp_all
qed

theorem failed_run_leaves_file_witness:
  "clean_har ''capture.har'' (world_of (NotJson ''{'')) =
     (Inl JSONDecodeError,
      \<lparr>files = [''capture.har'' \<mapsto> NotJson ''{''], events = [OpenRead ''capture.har'']\<rparr>) \<and>
   clean_har ''capture.har'' (world_of (Document (har_of [JObj []]))) =
     (Inl (KeyError ''request''),
      \<lparr>files = [''capture.har'' \<mapsto> Document (har_of [JObj []])],
       events = [OpenRead ''capture.har'']\<rparr>)"
proof -
  have c: "cleaned_entries_of (har_of [JObj []]) = Inl (KeyError ''request'')"
    by (simp add: har_of_def cleaned_entries_of_def request_field_def)
  from failed_run_leaves_file [of "world_of (NotJson ''{'')" "''capture.har''" "''{''"
      JNull TypeError JSONDecodeError]
    failed_run_leaves_file [of "world_of (Document (har_of [JObj []]))" "''capture.har''"
      "''{''" "har_of [JObj []]" "KeyError ''request''" "KeyError ''request''"] c
  show ?thesis by (simp add: world_of_def)
qed


subsection \<open>C9: the command line\<close>

text \<open>
  Claim C9. \<^verbatim>\<open>sys.argv\<close> is the script name followed by the arguments. When the
  number of arguments is not one, the program prints the usage line on standard
  output and exits with status 1; the files are unchanged and no \<^verbatim>\<open>open\<close> call
  is made. With exactly one argument the program runs the cleaner on that path,
  prints nothing, and exits with 0 when the cleaner returns and with 1 when it
  raises.
\<close>

theorem main_usage:
  "(length args \<noteq> 1 \<longrightarrow>
      main (prog # args) w = \<lparr>exit_code = 1, stdout = [usage], uncaught = None, final = w\<rparr>) \<and>
   (length args = 1 \<longrightarrow>
      final (main (prog # args) w) = snd (clean_har (hd args) w) \<and>
      stdout (main (prog # args) w) = [] \<and>
      (exit_code (main (prog # args) w) = 0) = (fst (clean_har (hd args) w) = Inr ()) \<and>
      (exit_code (main (prog # args) w) = 1) = (fst (clean_har (hd args) w) \<noteq> Inr ()))"
proof (intro conjI impI)
  assume "length args \<noteq> 1"
  then show "main (prog # args) w =
      \<lparr>exit_code = 1, stdout = [usage], uncaught = None, final = w\<rparr>"
    by (simp add: main_def)
next
  assume a: "length args = 1"
  then obtain a' where args: "args = [a']" by (cases args) auto
  obtain r w' where r: "clean_har a' w = (r, w')" by (cases "clean_har a' w")
  show "final (main (prog # args) w) = snd (clean_har (hd args) w)"
    using args r by (cases r) (simp_all add: main_def)
  show "stdout (main (prog # args) w) = []"
    using args r by (cases r) (simp_all add: main_def)
  show "(exit_code (main (prog # args) w) = 0) = (fst (clean_har (hd args) w) = Inr ())"
    using args r by (cases r) (simp_all add: main_def)
  show "(exit_code (main (prog # args) w) = 1) = (fst (clean_har (hd args) w) \<noteq> Inr ())"
    using args r by (cases r) (simp_all add: main_def)
qed

theorem main_usage_witness:
  "main [''clean_har.py''] (world_of (Document example_har)) =
     \<lparr>exit_code = 1, stdout = [usage], uncaught = None,
      final = world_of (Document example_har)\<rparr> \<and>
   main [''clean_har.py'', ''capture.har'', ''other.har''] (world_of (Document example_har)) =
     \<lparr>exit_code = 1, stdout = [usage], uncaught = None,
      final = world_of (Document example_har)\<rparr> \<and>
   final (main [''clean_har.py'', ''capture.har''] (world_of (Document example_har))) =
     snd (clean_har ''capture.har'' (world_of (Document example_har))) \<and>
   exit_code (main [''clean_har.py'', ''capture.har''] (world_of (Document example_har))) = 0"
proof -
  have c: "cleaned_entries_of example_har =
     Inr [JStr ''https://a.com/'', JStr ''https://a.com/img.png'']"
    by (simp add: example_har_def example_entries_def entry_of_def cleaned_entries_of_def
        request_field_def)
  have f: "files (world_of (Document example_har)) ''capture.har'' = Some (Document example_har)"
    by (simp add: world_of_def)
  have r: "fst (clean_har ''capture.har'' (world_of (Document example_har))) = Inr ()"
    using clean_har_document [OF f] c by simp
  from main_usage [of "[]" "''clean_har.py''" "world_of (Document example_har)"]
    main_usage [of "[''capture.har'', ''other.har'']" "''clean_har.py''"
      "world_of (Document example_har)"]
    main_usage [of "[''capture.har'']" "''clean_har.py''" "world_of (Document example_har)"] r
  show ?thesis by simp
qed

subsection \<open>C10: the favicon test never discards an entry\<close>

text \<open>
  Claim C10. The favicon test is reached only with the method \<^verbatim>\<open>GET\<close>, whose last
  \<^verbatim>\<open>/\<close>-segment is \<^verbatim>\<open>GET\<close>, so its branch is never taken: the loop, the
  filtering pass and the cleaner are equal, on every input and with the same
  exceptions, to the simpler ones that keep the url of every entry whose method is
  \<^verbatim>\<open>GET\<close>.
\<close>

theorem favicon_test_is_dead:
  "and_then (split_slash (JStr ''GET'')) last_item = Inr ''GET'' \<and>
   clean_loop es acc = keep_get_urls es acc \<and>
   cleaned_entries_of doc = simple_entries_of doc \<and>
   clean_har p w = simple_clean_har p w"
proof (intro conjI)
  show "and_then (split_slash (JStr ''GET'')) last_item = Inr ''GET''" by simp
  show "clean_loop es acc = keep_get_urls es acc" by (rule clean_loop_keep_get_urls)
  show "cleaned_entries_of doc = simple_entries_of doc" by (rule simple_entries_of_eq)
  have eq: "cleaned_entries_of = simple_entries_of" by (rule ext) (rule simple_entries_of_eq)
  show "clean_har p w = simple_clean_har p w"
    by (simp only: clean_har_def simple_clean_har_def eq)
qed

theorem favicon_test_is_dead_witness:
  "simple_clean_har ''capture.har''
     (world_of (Document (har_of [entry_of ''GET'' ''https://a.com/favicon.ico'']))) =
   (Inr (), \<lparr>files = [''capture.har'' \<mapsto> Document (JArr [JStr ''https://a.com/favicon.ico''])],
             events = [OpenRead ''capture.har'', OpenWrite ''capture.har'']\<rparr>)"
proof -
  have c: "cleaned_entries_of (har_of [entry_of ''GET'' ''https://a.com/favicon.ico'']) =
      Inr [JStr ''https://a.com/favicon.ico'']"
    by (simp add: har_entries_cleaned [OF har_entries_har_of] clean_loop_entry_of_get
        del: clean_loop.simps(2))
  have f: "files (world_of (Document (har_of [entry_of ''GET'' ''https://a.com/favicon.ico''])))
      ''capture.har'' = Some (Document (har_of [entry_of ''GET'' ''https://a.com/favicon.ico'']))"
    by (simp add: world_of_def)
  from clean_har_document [OF f] c
    favicon_test_is_dead [of "[]" "[]" JNull "''capture.har''"
      "world_of (Document (har_of [entry_of ''GET'' ''https://a.com/favicon.ico'']))"]
  show ?thesis by (simp add: world_of_def)
qed


end
